theory Spec2Isabelle
  imports Main "HOL-Library.Char_ord" "HOL-Library.List_Lexorder"
    "HOL-Library.Product_Lexorder" "HOL-Library.Multiset"
begin

section \<open>Data model of dupfinder.py\<close>

text \<open>
  The dictionary built in \<open>scan_for_duplicates\<close> (keys \<open>path\<close>, \<open>hash\<close>, \<open>filename\<close> and the
  six keys of \<open>get_metadata\<close>) is the record \<open>image_data\<close>; a row of the table \<open>images\<close> adds
  the columns \<open>id\<close>, \<open>is_original\<close>, \<open>group_id\<close> and \<open>is_deleted\<close>. SQL \<open>NULL\<close> and Python
  \<open>None\<close> are \<open>None\<close>. The column \<open>created_at\<close> of \<open>duplicate_groups\<close> is never read and is
  left out.
\<close>

record metadata =
  resolution :: string
  width :: nat
  height :: nat
  file_size :: nat
  date_taken :: "string option"
  date_modified :: "string option"

record image_data = metadata +
  path :: string
  hash :: string
  filename :: string

record image_row = image_data +
  row_id :: nat
  is_original :: bool
  group_id :: "nat option"
  is_deleted :: bool

record group_row =
  group_row_id :: nat
  group_hash :: string
  image_count :: nat

text \<open>
  The SQLite file: both tables in rowid order and the two \<open>AUTOINCREMENT\<close> counters (the
  largest id handed out so far).
\<close>

record db =
  images :: "image_row list"
  duplicate_groups :: "group_row list"
  images_seq :: nat
  groups_seq :: nat

datatype exif_result = exif_raises | exif_absent | exif_items "(nat \<times> string) list"

text \<open>
  Everything the scan reads from outside the program. \<open>entries\<close> lists every path below
  \<open>source_folder\<close> with the answer of \<open>is_file()\<close>; \<open>case_insensitive\<close> says whether
  \<open>Path.glob\<close> ignores case (it follows the platform: it does on Windows, not on POSIX).
  \<open>phash\<close> is the outcome of opening the image and hashing it (\<open>None\<close> when anything raises),
  \<open>stat\<close> gives size and the ISO text of the modification time, \<open>image_size\<close> is
  \<open>Image.open(path).size\<close> (\<open>None\<close> when the open raises), \<open>getexif\<close> the EXIF dictionary,
  \<open>TAGS\<close> the table \<open>ExifTags.TAGS\<close> and \<open>strptime\<close> the parse of
  \<open>'%Y:%m:%d %H:%M:%S'\<close> followed by \<open>isoformat()\<close> (\<open>None\<close> when it raises).
  \<open>should_stop k\<close> is the value of the flag when the loop reads it before the file of
  index \<open>k\<close>. The four \<open>*_error\<close> fields say which SQLite statements raise, and with
  which message.
\<close>

record world =
  entries :: "(string \<times> bool) list"
  case_insensitive :: bool
  phash :: "string \<Rightarrow> string option"
  stat :: "string \<Rightarrow> (nat \<times> string) option"
  image_size :: "string \<Rightarrow> (nat \<times> nat) option"
  getexif :: "string \<Rightarrow> exif_result"
  TAGS :: "nat \<Rightarrow> string option"
  strptime :: "string \<Rightarrow> string option"
  should_stop :: "nat \<Rightarrow> bool"
  setup_error :: "string option"
  save_error :: "string \<Rightarrow> string option"
  group_error :: "string \<Rightarrow> string option"
  update_error :: "string \<Rightarrow> string option"

datatype event =
  progress_text string
| progress_value int
| finished_scan bool string
| print string

section \<open>Strings\<close>

definition digit :: "nat \<Rightarrow> char" where
  "digit n = ''0123456789'' ! n"

function show_nat :: "nat \<Rightarrow> string" where
  "show_nat n = (if n < 10 then [digit n] else show_nat (n div 10) @ [digit (n mod 10)])"
  by pat_completeness auto
termination
  by (relation "measure id") auto

declare show_nat.simps [simp del]

definition upper_char :: "char \<Rightarrow> char" where
  "upper_char c =
     (case map_of (zip ''abcdefghijklmnopqrstuvwxyz'' ''ABCDEFGHIJKLMNOPQRSTUVWXYZ'') c of
        None \<Rightarrow> c | Some u \<Rightarrow> u)"

definition lower_char :: "char \<Rightarrow> char" where
  "lower_char c =
     (case map_of (zip ''ABCDEFGHIJKLMNOPQRSTUVWXYZ'' ''abcdefghijklmnopqrstuvwxyz'') c of
        None \<Rightarrow> c | Some l \<Rightarrow> l)"

definition upper :: "string \<Rightarrow> string" where
  "upper s = map upper_char s"

definition lower :: "string \<Rightarrow> string" where
  "lower s = map lower_char s"

definition endswith :: "string \<Rightarrow> string \<Rightarrow> bool" where
  "endswith s e = (length e \<le> length s \<and> drop (length s - length e) s = e)"

text \<open>\<open>os.path.basename\<close>: what follows the last slash.\<close>

definition basename :: "string \<Rightarrow> string" where
  "basename p = rev (takeWhile (\<lambda>c. c \<noteq> CHR ''/'') (rev p))"

section \<open>Sorting\<close>

text \<open>
  \<open>list.sort(key=..., reverse=True)\<close> and an SQL \<open>ORDER BY ... DESC\<close>: descending by the
  key, elements with equal keys in their original order (Python's sort is stable, also
  when reversed; SQLite leaves the order of ties open, and the model keeps table order).
\<close>

fun insort_desc :: "('a \<Rightarrow> 'k::linorder) \<Rightarrow> 'a \<Rightarrow> 'a list \<Rightarrow> 'a list" where
  "insort_desc k x [] = [x]"
| "insort_desc k x (y # ys) = (if k y \<le> k x then x # y # ys else y # insort_desc k x ys)"

definition sort_desc :: "('a \<Rightarrow> 'k::linorder) \<Rightarrow> 'a list \<Rightarrow> 'a list" where
  "sort_desc k xs = foldr (insort_desc k) xs []"

section \<open>ScanThread\<close>

definition IMAGE_EXTENSIONS :: "string list" where
  "IMAGE_EXTENSIONS =
     [''.jpg'', ''.jpeg'', ''.png'', ''.heic'', ''.heif'', ''.bmp'', ''.gif'', ''.webp'',
      ''.tiff'', ''.tif'']"

text \<open>
  \<open>folder_path.glob("**/*" + ext)\<close>: the paths below the folder, at any depth, whose last
  component ends with \<open>ext\<close>.
\<close>

definition glob :: "world \<Rightarrow> string \<Rightarrow> (string \<times> bool) list" where
  "glob w ext =
     filter (\<lambda>(p, f). if case_insensitive w then endswith (lower (basename p)) (lower ext)
                       else endswith (basename p) ext)
       (entries w)"

definition find_image_files :: "world \<Rightarrow> string list" where
  "find_image_files w =
     remdups (concat (map (\<lambda>ext.
        map fst (filter snd (glob w ext)) @ map fst (filter snd (glob w (upper ext))))
        IMAGE_EXTENSIONS))"

definition get_image_hash :: "world \<Rightarrow> string \<Rightarrow> string option" where
  "get_image_hash w p = phash w p"

text \<open>
  The inner \<open>try\<close> of \<open>get_metadata\<close>: the first EXIF entry whose tag is named
  \<open>DateTime\<close> is parsed; a missing dictionary, a missing tag and any exception give
  \<open>None\<close>.
\<close>

definition exif_date_taken :: "world \<Rightarrow> string \<Rightarrow> string option" where
  "exif_date_taken w p =
     (case getexif w p of
        exif_raises \<Rightarrow> None
      | exif_absent \<Rightarrow> None
      | exif_items items \<Rightarrow>
          (case find (\<lambda>(tag, v). TAGS w tag = Some ''DateTime'') items of
             None \<Rightarrow> None
           | Some (tag, v) \<Rightarrow> strptime w v))"

definition fallback_metadata :: metadata where
  "fallback_metadata =
     \<lparr>resolution = ''unknown'', width = 0, height = 0, file_size = 0,
      date_taken = None, date_modified = None\<rparr>"

definition get_metadata :: "world \<Rightarrow> string \<Rightarrow> metadata" where
  "get_metadata w p =
     (case stat w p of
        None \<Rightarrow> fallback_metadata
      | Some (st_size, mtime) \<Rightarrow>
          (case image_size w p of
             None \<Rightarrow> fallback_metadata
           | Some (wd, ht) \<Rightarrow>
               \<lparr>resolution = show_nat wd @ ''x'' @ show_nat ht, width = wd, height = ht,
                file_size = st_size, date_taken = exif_date_taken w p,
                date_modified = Some mtime\<rparr>))"

definition empty_db :: db where
  "empty_db = \<lparr>images = [], duplicate_groups = [], images_seq = 0, groups_seq = 0\<rparr>"

text \<open>
  A statement that raises leaves the database as it was (each one runs in a connection
  of its own, used as a context manager).
\<close>

definition setup_database :: "world \<Rightarrow> db \<Rightarrow> string + db" where
  "setup_database w d = (case setup_error w of Some e \<Rightarrow> Inl e | None \<Rightarrow> Inr empty_db)"

definition new_row :: "nat \<Rightarrow> image_data \<Rightarrow> image_row" where
  "new_row i x =
     \<lparr>resolution = resolution x, width = width x, height = height x,
      file_size = file_size x, date_taken = date_taken x, date_modified = date_modified x,
      path = path x, hash = hash x, filename = filename x,
      row_id = i, is_original = False, group_id = None, is_deleted = False\<rparr>"

text \<open>\<open>INSERT OR REPLACE\<close>: a row with the same \<open>path\<close> is deleted, the new row gets a new id.\<close>

definition save_image_to_db :: "world \<Rightarrow> db \<Rightarrow> image_data \<Rightarrow> string + db" where
  "save_image_to_db w d x =
     (case save_error w (path x) of
        Some e \<Rightarrow> Inl e
      | None \<Rightarrow>
          Inr (d\<lparr>images := filter (\<lambda>r. path r \<noteq> path x) (images d)
                              @ [new_row (Suc (images_seq d)) x],
                 images_seq := Suc (images_seq d)\<rparr>))"

definition create_duplicate_group ::
  "world \<Rightarrow> db \<Rightarrow> string \<Rightarrow> image_data list \<Rightarrow> string + (db \<times> nat)" where
  "create_duplicate_group w d img_hash imgs =
     (case group_error w img_hash of
        Some e \<Rightarrow> Inl e
      | None \<Rightarrow>
          Inr (d\<lparr>duplicate_groups := duplicate_groups d
                   @ [\<lparr>group_row_id = Suc (groups_seq d), group_hash = img_hash,
                       image_count = length imgs\<rparr>],
                 groups_seq := Suc (groups_seq d)\<rparr>,
               Suc (groups_seq d)))"

definition set_group :: "nat \<Rightarrow> bool \<Rightarrow> image_row \<Rightarrow> image_row" where
  "set_group g orig r = r\<lparr>group_id := Some g, is_original := orig\<rparr>"

definition update_image_group :: "world \<Rightarrow> db \<Rightarrow> string \<Rightarrow> nat \<Rightarrow> bool \<Rightarrow> string + db" where
  "update_image_group w d p g orig =
     (case update_error w p of
        Some e \<Rightarrow> Inl e
      | None \<Rightarrow>
          Inr (d\<lparr>images := map (\<lambda>r. if path r = p then set_group g orig r else r)
                                (images d)\<rparr>))"

subsection \<open>The processing loop\<close>

record scan_state =
  store :: db
  processed :: nat
  hash_to_images :: "(string \<times> image_data list) list"
  emitted :: "event list"

text \<open>
  \<open>hash_to_images[h].append(x)\<close> on a \<open>defaultdict(list)\<close>: a known key keeps its place, a
  new key goes last.
\<close>

fun append_bucket ::
  "(string \<times> image_data list) list \<Rightarrow> string \<Rightarrow> image_data \<Rightarrow> (string \<times> image_data list) list"
where
  "append_bucket [] h x = [(h, [x])]"
| "append_bucket ((k, v) # m) h x =
     (if k = h then (k, v @ [x]) # m else (k, v) # append_bucket m h x)"

text \<open>
  \<open>int((processed / len(image_files)) * 80)\<close>. The source computes it in binary floating
  point; the model takes the exact quotient, rounded down.
\<close>

definition progress :: "nat \<Rightarrow> nat \<Rightarrow> int" where
  "progress n len = (int n * 80) div int len"

definition make_image_data :: "world \<Rightarrow> string \<Rightarrow> string \<Rightarrow> image_data" where
  "make_image_data w filepath h =
     (let m = get_metadata w filepath in
      \<lparr>resolution = resolution m, width = width m, height = height m,
       file_size = file_size m, date_taken = date_taken m,
       date_modified = date_modified m,
       path = filepath, hash = h, filename = basename filepath\<rparr>)"

definition count_processed :: "nat \<Rightarrow> scan_state \<Rightarrow> scan_state" where
  "count_processed len st =
     st\<lparr>processed := Suc (processed st),
        emitted := emitted st @ [progress_value (progress (Suc (processed st)) len)]\<rparr>"

text \<open>
  The body of the \<open>try\<close> for one file. Only \<open>save_image_to_db\<close> can raise in it
  (\<open>get_image_hash\<close> and \<open>get_metadata\<close> catch everything themselves); the handler prints
  and goes on to the next file.
\<close>

definition process_file :: "world \<Rightarrow> nat \<Rightarrow> string \<Rightarrow> scan_state \<Rightarrow> scan_state" where
  "process_file w len filepath st =
     (case get_image_hash w filepath of
        None \<Rightarrow> count_processed len st
      | Some h \<Rightarrow>
          (let image_data = make_image_data w filepath h in
           case save_image_to_db w (store st) image_data of
             Inl e \<Rightarrow> st\<lparr>emitted := emitted st @ [print (''Fout bij '' @ filepath @ '': '' @ e)]\<rparr>
           | Inr d \<Rightarrow>
               count_processed len
                 (st\<lparr>store := d,
                     hash_to_images := append_bucket (hash_to_images st) h image_data\<rparr>)))"

text \<open>
  The \<open>for\<close> loop over \<open>image_files\<close>; \<open>k\<close> counts the files the loop has reached. The
  first component says whether the loop left through \<open>if self.should_stop: return\<close>.
\<close>

fun process_images ::
  "world \<Rightarrow> nat \<Rightarrow> nat \<Rightarrow> string list \<Rightarrow> scan_state \<Rightarrow> bool \<times> scan_state" where
  "process_images w len k [] st = (False, st)"
| "process_images w len k (f # fs) st =
     (if should_stop w k then (True, st)
      else process_images w len (Suc k) fs (process_file w len f st))"

subsection \<open>The grouping loop\<close>

definition image_key :: "image_data \<Rightarrow> nat \<times> string" where
  "image_key x = (width x * height x, case date_taken x of None \<Rightarrow> '''' | Some s \<Rightarrow> s)"

definition sort_images :: "image_data list \<Rightarrow> image_data list" where
  "sort_images imgs = sort_desc image_key imgs"

text \<open>
  In the loops below an exception leaves through the first component, with the
  database as the statements before it left it.
\<close>

fun update_images :: "world \<Rightarrow> db \<Rightarrow> image_data list \<Rightarrow> nat \<Rightarrow> string option \<times> db" where
  "update_images w d [] g = (None, d)"
| "update_images w d (x # xs) g =
     (case update_image_group w d (path x) g False of
        Inl e \<Rightarrow> (Some e, d)
      | Inr d' \<Rightarrow> update_images w d' xs g)"

text \<open>
  The loop over \<open>hash_to_images.items()\<close>. \<open>images.sort(...)\<close> sorts the list held by the
  dictionary in place, so the loop also changes \<open>hash_to_images\<close>: the last component is
  the dictionary as the loop leaves it, the third the count of groups.
\<close>

fun group_buckets ::
  "world \<Rightarrow> db \<Rightarrow> (string \<times> image_data list) list \<Rightarrow> nat
     \<Rightarrow> string option \<times> db \<times> nat \<times> (string \<times> image_data list) list" where
  "group_buckets w d [] n = (None, d, n, [])"
| "group_buckets w d ((img_hash, imgs) # rest) n =
     (if length imgs > 1 then
        (case create_duplicate_group w d img_hash (sort_images imgs) of
           Inl e \<Rightarrow> (Some e, d, n, (img_hash, sort_images imgs) # rest)
         | Inr (d1, g) \<Rightarrow>
             (case update_images w d1 (sort_images imgs) g of
                (Some e, d2) \<Rightarrow> (Some e, d2, n, (img_hash, sort_images imgs) # rest)
              | (None, d2) \<Rightarrow>
                  (case group_buckets w d2 rest (Suc n) of
                     (e, d3, n', m) \<Rightarrow> (e, d3, n', (img_hash, sort_images imgs) # m))))
      else
        (case group_buckets w d rest n of
           (e, d3, n', m) \<Rightarrow> (e, d3, n', (img_hash, imgs) # m)))"

definition total_duplicates :: "(string \<times> image_data list) list \<Rightarrow> nat" where
  "total_duplicates m =
     sum_list (map (\<lambda>(h, imgs). length imgs - 1) (filter (\<lambda>(h, imgs). length imgs > 1) m))"

subsection \<open>The scan\<close>

definition initial_state :: "db \<Rightarrow> event list \<Rightarrow> scan_state" where
  "initial_state d evs = \<lparr>store = d, processed = 0, hash_to_images = [], emitted = evs\<rparr>"

definition finish_message :: "nat \<Rightarrow> (string \<times> image_data list) list \<Rightarrow> string" where
  "finish_message n m =
     (if n = 0 then ''Geen duplicaten gevonden! Alle afbeeldingen zijn uniek.''
      else ''Scan voltooid!'' @ [CHR 0x0A] @ show_nat n @ '' groepen met ''
           @ show_nat (total_duplicates m) @ '' duplicaten gevonden.'')"

text \<open>
  \<open>scan_for_duplicates\<close> returns the exception that left it (if any), the database and
  the signals emitted, oldest first.
\<close>

definition scan_for_duplicates :: "world \<Rightarrow> db \<Rightarrow> string option \<times> db \<times> event list" where
  "scan_for_duplicates w d0 =
     (case setup_database w d0 of
        Inl e \<Rightarrow> (Some e, d0, [progress_text ''Database voorbereiden...''])
      | Inr d1 \<Rightarrow>
          (let image_files = find_image_files w;
               evs = [progress_text ''Database voorbereiden...'',
                      progress_text ''Bestanden zoeken...'']
           in
           if image_files = [] then
             (None, d1, evs @ [finished_scan False ''Geen afbeeldingen gevonden!''])
           else
             (case process_images w (length image_files) 0 image_files
                     (initial_state d1
                        (evs @ [progress_text (''Verwerken van ''
                                  @ show_nat (length image_files) @ '' afbeeldingen...'')]))
              of
                (True, st) \<Rightarrow> (None, store st, emitted st)
              | (False, st) \<Rightarrow>
                  (case group_buckets w (store st) (hash_to_images st) 0 of
                     (Some e, d2, n, m) \<Rightarrow>
                       (Some e, d2, emitted st @ [progress_text ''Duplicaten zoeken...''])
                   | (None, d2, n, m) \<Rightarrow>
                       (None, d2,
                        emitted st @ [progress_text ''Duplicaten zoeken...'',
                                      progress_value 100,
                                      finished_scan True (finish_message n m)])))))"

text \<open>\<open>run\<close>: an exception that leaves the scan is reported by \<open>finished_scan(False, ...)\<close>.\<close>

definition run :: "world \<Rightarrow> db \<Rightarrow> db \<times> event list" where
  "run w d0 =
     (case scan_for_duplicates w d0 of
        (Some e, d, evs) \<Rightarrow> (d, evs @ [finished_scan False (''Fout tijdens scannen: '' @ e)])
      | (None, d, evs) \<Rightarrow> (d, evs))"

section \<open>DuplicatePhotoManager\<close>

text \<open>
  The part of the window the delete and load operations touch: \<open>disk\<close> lists the paths
  for which \<open>os.path.exists\<close> holds, \<open>catalog\<close> is the database file (\<open>None\<close> while the
  file does not exist), and \<open>duplicates\<close>, \<open>current_group\<close> and \<open>results_label\<close> are the
  attributes of the same names. \<open>ui_env\<close> holds what comes from outside: the answer to
  the confirmation box and which calls raise, with which message.
\<close>

record manager =
  disk :: "string list"
  catalog :: "db option"
  duplicates :: "image_row list list"
  current_group :: nat
  results_label :: string

record ui_env =
  reply_yes :: bool
  remove_error :: "string \<Rightarrow> string option"
  mark_error :: "string option"
  load_error :: "string option"

datatype dialog = information string string | critical string string

text \<open>
  The rows of \<open>images\<close> that join the group \<open>g\<close> under \<open>WHERE is_deleted = FALSE\<close>; a
  \<open>NULL\<close> \<open>group_id\<close> joins nothing.
\<close>

definition group_members :: "db \<Rightarrow> nat \<Rightarrow> image_row list" where
  "group_members d g = filter (\<lambda>i. group_id i = Some g \<and> \<not> is_deleted i) (images d)"

text \<open>
  The first query of \<open>load_existing_results\<close>: one result row \<open>(id, hash, image_count)\<close>
  per row of \<open>duplicate_groups\<close> (\<open>id\<close> is the primary key, so \<open>GROUP BY dg.id, dg.hash\<close>
  groups by row), kept when the count exceeds 1, ordered by the count, descending.
\<close>

definition select_groups :: "db \<Rightarrow> (nat \<times> string \<times> nat) list" where
  "select_groups d =
     sort_desc (\<lambda>(i, h, c). c)
       (filter (\<lambda>(i, h, c). c > 1)
          (map (\<lambda>g. (group_row_id g, group_hash g, length (group_members d (group_row_id g))))
             (duplicate_groups d)))"

text \<open>The second query: \<open>ORDER BY is_original DESC, width * height DESC\<close>.\<close>

definition select_images :: "db \<Rightarrow> nat \<Rightarrow> image_row list" where
  "select_images d g = sort_desc (\<lambda>i. (is_original i, width i * height i)) (group_members d g)"

definition query_duplicates :: "db \<Rightarrow> image_row list list" where
  "query_duplicates d =
     filter (\<lambda>imgs. length imgs > 1) (map (\<lambda>(i, h, c). select_images d i) (select_groups d))"

definition load_existing_results :: "ui_env \<Rightarrow> manager \<Rightarrow> manager" where
  "load_existing_results env m =
     (case catalog m of
        None \<Rightarrow> m\<lparr>results_label := ''Geen database gevonden - voer eerst een scan uit''\<rparr>
      | Some d \<Rightarrow>
          (case load_error env of
             Some e \<Rightarrow> m\<lparr>results_label := ''Fout bij laden: '' @ e\<rparr>
           | None \<Rightarrow>
               (let dups = query_duplicates d in
                m\<lparr>duplicates := dups, current_group := 0,
                  results_label :=
                    (if dups \<noteq> [] then show_nat (length dups) @ '' duplicate groepen gevonden''
                     else ''Geen duplicaten gevonden'')\<rparr>)))"

definition mark_deleted :: "string \<Rightarrow> db \<Rightarrow> db" where
  "mark_deleted p d =
     d\<lparr>images := map (\<lambda>r. if path r = p then r\<lparr>is_deleted := True\<rparr> else r) (images d)\<rparr>"

text \<open>
  \<open>delete_image\<close> returns the new state and the message box shown after the
  confirmation (none when the user answers No). The three steps of the \<open>try\<close> are
  separate definitions; an exception in one of them skips the rest and shows the
  \<open>critical\<close> box. Without the tables the \<open>UPDATE\<close> raises.
\<close>

definition remove_file :: "ui_env \<Rightarrow> manager \<Rightarrow> string \<Rightarrow> string + manager" where
  "remove_file env m file_path =
     (if file_path \<in> set (disk m) then
        (case remove_error env file_path of
           Some e \<Rightarrow> Inl e
         | None \<Rightarrow> Inr (m\<lparr>disk := removeAll file_path (disk m)\<rparr>))
      else Inr m)"

definition update_deleted :: "ui_env \<Rightarrow> manager \<Rightarrow> string \<Rightarrow> string + manager" where
  "update_deleted env m file_path =
     (case catalog m of
        None \<Rightarrow> Inl ''no such table: images''
      | Some d \<Rightarrow>
          (case mark_error env of
             Some e \<Rightarrow> Inl e
           | None \<Rightarrow> Inr (m\<lparr>catalog := Some (mark_deleted file_path d)\<rparr>)))"

definition delete_failed :: "string \<Rightarrow> dialog" where
  "delete_failed e = critical ''Fout'' (''Kon bestand niet verwijderen: '' @ e)"

definition delete_image :: "ui_env \<Rightarrow> manager \<Rightarrow> string \<Rightarrow> manager \<times> dialog option" where
  "delete_image env m file_path =
     (if reply_yes env then
        (case remove_file env m file_path of
           Inl e \<Rightarrow> (m, Some (delete_failed e))
         | Inr m1 \<Rightarrow>
             (case update_deleted env m1 file_path of
                Inl e \<Rightarrow> (m1, Some (delete_failed e))
              | Inr m2 \<Rightarrow>
                  (load_existing_results env m2,
                   Some (information ''Verwijderd''
                           (''Bestand verwijderd: '' @ basename file_path)))))
      else (m, None))"

section \<open>Concrete inputs\<close>

text \<open>
  An empty folder on a case-sensitive file system in which nothing decodes and nothing
  fails; the inputs below change it where they need to.
\<close>

definition quiet_world :: world where
  "quiet_world =
     \<lparr>entries = [], case_insensitive = False, phash = (\<lambda>p. None), stat = (\<lambda>p. None),
      image_size = (\<lambda>p. None), getexif = (\<lambda>p. exif_absent), TAGS = (\<lambda>t. None),
      strptime = (\<lambda>s. None), should_stop = (\<lambda>k. False), setup_error = None,
      save_error = (\<lambda>p. None), group_error = (\<lambda>h. None), update_error = (\<lambda>p. None)\<rparr>"

text \<open>Every file can be statted (2048 bytes), none can be decoded.\<close>

definition truncated_world :: world where
  "truncated_world = quiet_world\<lparr>stat := (\<lambda>p. Some (2048, ''2024-05-01T10:00:00''))\<rparr>"

text \<open>A folder with one regular file whose extension is in mixed case.\<close>

definition mixed_case_world :: world where
  "mixed_case_world = quiet_world\<lparr>entries := [(''photos/holiday.Jpg'', True)]\<rparr>"

text \<open>
  A catalog as a scan leaves it: three files with the fingerprint \<open>00\<close> in group 1 and
  one file alone with \<open>ff\<close>; a window on it with all four files on disk; a user who
  confirms, in a setting where nothing fails, where the removal is refused and where the
  database is locked; and the same window after \<open>a.jpg\<close> has been removed from disk
  by someone else.
\<close>

definition photo :: "string \<Rightarrow> nat \<Rightarrow> string \<Rightarrow> nat \<Rightarrow> nat \<Rightarrow> nat option \<Rightarrow> image_row" where
  "photo p i h wd ht g =
     \<lparr>resolution = show_nat wd @ ''x'' @ show_nat ht, width = wd, height = ht,
      file_size = 100, date_taken = None, date_modified = Some ''2024-05-01T10:00:00'',
      path = p, hash = h, filename = basename p,
      row_id = i, is_original = False, group_id = g, is_deleted = False\<rparr>"

definition album :: db where
  "album =
     \<lparr>images = [photo ''a.jpg'' 1 ''00'' 10 10 (Some 1), photo ''b.jpg'' 2 ''00'' 20 20 (Some 1),
                photo ''c.jpg'' 3 ''00'' 15 15 (Some 1), photo ''d.jpg'' 4 ''ff'' 5 5 None],
      duplicate_groups = [\<lparr>group_row_id = 1, group_hash = ''00'', image_count = 3\<rparr>],
      images_seq = 4, groups_seq = 1\<rparr>"

definition viewer :: manager where
  "viewer =
     \<lparr>disk = [''a.jpg'', ''b.jpg'', ''c.jpg'', ''d.jpg''], catalog = Some album,
      duplicates = [], current_group = 0, results_label = []\<rparr>"

definition willing :: ui_env where
  "willing =
     \<lparr>reply_yes = True, remove_error = (\<lambda>p. None), mark_error = None, load_error = None\<rparr>"

definition denied :: ui_env where
  "denied = willing\<lparr>remove_error := (\<lambda>p. Some ''Permission denied'')\<rparr>"

definition locked :: ui_env where
  "locked = willing\<lparr>mark_error := Some ''database is locked''\<rparr>"

definition viewer_gone :: manager where
  "viewer_gone = viewer\<lparr>disk := [''b.jpg'', ''c.jpg'', ''d.jpg'']\<rparr>"

text \<open>Reading a list of signals: the percentages, the status lines, the final signals.\<close>

fun progress_values :: "event list \<Rightarrow> int list" where
  "progress_values [] = []"
| "progress_values (progress_value v # es) = v # progress_values es"
| "progress_values (e # es) = progress_values es"

fun status_lines :: "event list \<Rightarrow> string list" where
  "status_lines [] = []"
| "status_lines (progress_text s # es) = s # status_lines es"
| "status_lines (e # es) = status_lines es"

fun finished_signals :: "event list \<Rightarrow> (bool \<times> string) list" where
  "finished_signals [] = []"
| "finished_signals (finished_scan b s # es) = (b, s) # finished_signals es"
| "finished_signals (e # es) = finished_signals es"

text \<open>
  A folder with \<open>a.jpg\<close> and \<open>b.jpg\<close>, which decode to the same fingerprint; the same
  folder when the stop flag is raised while the first file is processed; and when the
  \<open>INSERT\<close> for \<open>a.jpg\<close> fails.
\<close>

definition pair_world :: world where
  "pair_world =
     quiet_world\<lparr>entries := [(''a.jpg'', True), (''b.jpg'', True)],
       phash := (\<lambda>p. Some ''00''),
       stat := (\<lambda>p. Some (2048, ''2024-05-01T10:00:00'')),
       image_size := (\<lambda>p. Some (4, 3))\<rparr>"

definition stopped_world :: world where
  "stopped_world = pair_world\<lparr>should_stop := (\<lambda>k. 1 \<le> k)\<rparr>"


text \<open>
  A dictionary with a bucket of four images, filled in an order that is not the sorted
  one, and a bucket of one.
\<close>

definition shot :: "string \<Rightarrow> nat \<Rightarrow> nat \<Rightarrow> string option \<Rightarrow> image_data" where
  "shot p wd ht taken =
     \<lparr>resolution = show_nat wd @ ''x'' @ show_nat ht, width = wd, height = ht,
      file_size = 100, date_taken = taken, date_modified = Some ''2024-05-01T10:00:00'',
      path = p, hash = ''00'', filename = basename p\<rparr>"

definition shelf :: "(string \<times> image_data list) list" where
  "shelf =
     [(''00'', [shot ''small.jpg'' 2 2 (Some ''2024-01-01T00:00:00''),
                shot ''undated.jpg'' 4 3 None,
                shot ''early.jpg'' 4 3 (Some ''2023-01-01T00:00:00''),
                shot ''late.jpg'' 3 4 (Some ''2024-01-01T00:00:00'')]),
      (''ff'', [shot ''single.jpg'' 1 1 None])]"







section \<open>Metadata extraction\<close>

text \<open>
  C5, as the code has it. \<open>get_metadata\<close> has one \<open>try\<close> around the stat and the decode, and
  its handler returns six placeholders: for a file that can be statted but not decoded
  the result is \<open>unknown\<close>, 0, 0, size 0, no capture date and no modification date. The
  function has no error result: it returns a dictionary on every input.
\<close>

theorem get_metadata_decode_failure:
  "stat w p = Some (sz, mt) \<Longrightarrow> image_size w p = None \<Longrightarrow>
   get_metadata w p =
     \<lparr>resolution = ''unknown'', width = 0, height = 0, file_size = 0,
      date_taken = None, date_modified = None\<rparr>"
  by (simp add: get_metadata_def fallback_metadata_def)

theorem get_metadata_decode_failure_witness:
  "stat truncated_world ''a.jpg'' = Some (2048, ''2024-05-01T10:00:00'') \<and>
   image_size truncated_world ''a.jpg'' = None \<and>
   get_metadata truncated_world ''a.jpg'' =
     \<lparr>resolution = ''unknown'', width = 0, height = 0, file_size = 0,
      date_taken = None, date_modified = None\<rparr>"
  using get_metadata_decode_failure
    [of truncated_world "''a.jpg''" 2048 "''2024-05-01T10:00:00''"]
  by (simp add: truncated_world_def quiet_world_def)

text \<open>
  C5, as the spec states it, fails: the stat of \<open>a.jpg\<close> gives 2048 bytes and a
  modification time, the decode fails, and the result carries neither.
\<close>

theorem get_metadata_keeps_stat_counterexample:
  "stat truncated_world ''a.jpg'' = Some (2048, ''2024-05-01T10:00:00'') \<and>
   image_size truncated_world ''a.jpg'' = None \<and>
   file_size (get_metadata truncated_world ''a.jpg'') \<noteq> 2048 \<and>
   date_modified (get_metadata truncated_world ''a.jpg'') \<noteq> Some ''2024-05-01T10:00:00''"
  by (simp add: get_metadata_def fallback_metadata_def truncated_world_def quiet_world_def)

section \<open>File discovery\<close>

text \<open>
  C7 at a folder that holds the single file \<open>photos/holiday.Jpg\<close>, on a file system where
  \<open>glob\<close> is case-sensitive: the patterns are \<open>*.jpg\<close> and \<open>*.JPG\<close> (and so on for the other
  extensions), neither matches, and the file is not discovered.
\<close>

theorem find_image_files_mixed_case:
  "find_image_files mixed_case_world = []"
  by (simp add: find_image_files_def glob_def mixed_case_world_def quiet_world_def
      IMAGE_EXTENSIONS_def endswith_def basename_def upper_def upper_char_def)

section \<open>Deleting an image\<close>

lemma mark_deleted_no_row:
  assumes "\<forall>r \<in> set (images d). path r \<noteq> p"
  shows "mark_deleted p d = d"
proof -
  have "map (\<lambda>r. if path r = p then r\<lparr>is_deleted := True\<rparr> else r) (images d) = images d"
    using assms by (intro map_idI) auto
  then show ?thesis by (simp add: mark_deleted_def)
qed

text \<open>
  C9, as the code has it. After the user confirms: a removal that raises on a file that
  exists is shown in the \<open>critical\<close> box and nothing changes; an \<open>UPDATE\<close> that raises is
  shown in the \<open>critical\<close> box and the catalog is unchanged; a file that is already gone
  is no failure, since \<open>os.remove\<close> is guarded by \<open>os.path.exists\<close>: the row is marked and
  the \<open>information\<close> box reports the deletion. \<open>delete_image\<close> reads and writes the window
  and the catalog only, not the scan thread.
\<close>

theorem delete_image_failure_surfaced:
  assumes "reply_yes env"
  shows "(p \<in> set (disk m) \<and> remove_error env p = Some e \<longrightarrow>
            delete_image env m p = (m, Some (delete_failed e)))
       \<and> ((p \<in> set (disk m) \<longrightarrow> remove_error env p = None) \<and> catalog m = Some d
            \<and> mark_error env = Some e \<longrightarrow>
            snd (delete_image env m p) = Some (delete_failed e)
            \<and> catalog (fst (delete_image env m p)) = catalog m)
       \<and> (p \<notin> set (disk m) \<and> catalog m = Some d \<and> mark_error env = None \<longrightarrow>
            snd (delete_image env m p)
              = Some (information ''Verwijderd'' (''Bestand verwijderd: '' @ basename p))
            \<and> catalog (fst (delete_image env m p)) = Some (mark_deleted p d))"
  using assms
  by (auto simp: delete_image_def remove_file_def update_deleted_def
      load_existing_results_def Let_def split: option.splits)

theorem delete_image_failure_surfaced_witness:
  "reply_yes denied \<and> ''a.jpg'' \<in> set (disk viewer)
   \<and> remove_error denied ''a.jpg'' = Some ''Permission denied''
   \<and> delete_image denied viewer ''a.jpg''
       = (viewer, Some (delete_failed ''Permission denied''))
   \<and> reply_yes locked \<and> remove_error locked ''a.jpg'' = None
   \<and> catalog viewer = Some album \<and> mark_error locked = Some ''database is locked''
   \<and> snd (delete_image locked viewer ''a.jpg'') = Some (delete_failed ''database is locked'')
   \<and> catalog (fst (delete_image locked viewer ''a.jpg'')) = catalog viewer
   \<and> reply_yes willing \<and> ''a.jpg'' \<notin> set (disk viewer_gone)
   \<and> catalog viewer_gone = Some album \<and> mark_error willing = None
   \<and> snd (delete_image willing viewer_gone ''a.jpg'')
       = Some (information ''Verwijderd'' (''Bestand verwijderd: '' @ basename ''a.jpg''))
   \<and> catalog (fst (delete_image willing viewer_gone ''a.jpg''))
       = Some (mark_deleted ''a.jpg'' album)"
  using
    delete_image_failure_surfaced [of denied "''a.jpg''" viewer "''Permission denied''" album]
    delete_image_failure_surfaced [of locked "''a.jpg''" viewer "''database is locked''" album]
    delete_image_failure_surfaced [of willing "''a.jpg''" viewer_gone "''none''" album]
  by (simp add: denied_def locked_def willing_def viewer_def viewer_gone_def)

text \<open>
  C9, as the spec states it, fails where the file is already gone: \<open>a.jpg\<close> is not on
  disk, and the caller is told that it was deleted.
\<close>

theorem delete_gone_file_counterexample:
  "''a.jpg'' \<notin> set (disk viewer_gone) \<and>
   snd (delete_image willing viewer_gone ''a.jpg'')
     = Some (information ''Verwijderd'' ''Bestand verwijderd: a.jpg'')"
  by (simp add: delete_image_def remove_file_def update_deleted_def willing_def viewer_def
      viewer_gone_def basename_def)

text \<open>
  C10. A path without a row in \<open>images\<close>: when the user confirms and neither the removal
  nor the \<open>UPDATE\<close> statement raises, the \<open>information\<close> box reports the deletion, the
  catalog is what it was, and the path is no longer on disk.
\<close>

theorem delete_image_unknown_path:
  assumes "reply_yes env" and "catalog m = Some d"
    and "p \<notin> set (map path (images d))"
    and "remove_error env p = None" and "mark_error env = None"
  shows "snd (delete_image env m p)
           = Some (information ''Verwijderd'' (''Bestand verwijderd: '' @ basename p))
       \<and> catalog (fst (delete_image env m p)) = Some d
       \<and> disk (fst (delete_image env m p)) = removeAll p (disk m)"
proof -
  have "\<forall>r \<in> set (images d). path r \<noteq> p"
    using assms(3) by auto
  then have "mark_deleted p d = d"
    by (rule mark_deleted_no_row)
  with assms show ?thesis
    by (auto simp: delete_image_def remove_file_def update_deleted_def
        load_existing_results_def Let_def split: option.splits)
qed

theorem delete_image_unknown_path_witness:
  "reply_yes willing \<and> catalog viewer = Some album
   \<and> ''z.jpg'' \<notin> set (map path (images album))
   \<and> remove_error willing ''z.jpg'' = None \<and> mark_error willing = None
   \<and> snd (delete_image willing viewer ''z.jpg'')
       = Some (information ''Verwijderd'' (''Bestand verwijderd: '' @ basename ''z.jpg''))
   \<and> catalog (fst (delete_image willing viewer ''z.jpg'')) = Some album
   \<and> disk (fst (delete_image willing viewer ''z.jpg'')) = removeAll ''z.jpg'' (disk viewer)"
  using delete_image_unknown_path [of willing viewer album "''z.jpg''"]
  by (simp add: willing_def viewer_def album_def photo_def)

section \<open>Sorting a bucket\<close>

text \<open>\<open>sort_desc\<close> permutes its input, sorts it by descending key, and is stable.\<close>

lemma mset_insort_desc: "mset (insort_desc k x xs) = add_mset x (mset xs)"
  by (induction xs) auto

lemma mset_sort_desc: "mset (sort_desc k xs) = mset xs"
  by (induction xs) (auto simp: sort_desc_def mset_insort_desc)

lemma set_insort_desc: "set (insort_desc k x xs) = insert x (set xs)"
  by (induction xs) auto



lemma sorted_insort_desc:
  "sorted_wrt (\<lambda>a b. k b \<le> k a) xs \<Longrightarrow> sorted_wrt (\<lambda>a b. k b \<le> k a) (insort_desc k x xs)"
  by (induction xs) (auto simp: set_insort_desc)

lemma sorted_sort_desc: "sorted_wrt (\<lambda>a b. k b \<le> k a) (sort_desc k xs)"
  by (induction xs) (auto simp: sort_desc_def sorted_insort_desc)

lemma filter_insort_desc:
  "sorted_wrt (\<lambda>a b. k b \<le> k a) xs \<Longrightarrow>
   filter (\<lambda>y. k y = c) (insort_desc k x xs)
     = (if k x = c then x # filter (\<lambda>y. k y = c) xs else filter (\<lambda>y. k y = c) xs)"
  by (induction xs) auto

lemma filter_sort_desc: "filter (\<lambda>y. k y = c) (sort_desc k xs) = filter (\<lambda>y. k y = c) xs"
proof (induction xs)
  case Nil
  show ?case by (simp add: sort_desc_def)
next
  case (Cons x xs)
  have "sort_desc k (x # xs) = insort_desc k x (sort_desc k xs)"
    by (simp add: sort_desc_def)
  with Cons show ?case
    by (simp add: filter_insort_desc sorted_sort_desc)
qed

section \<open>The processing loop\<close>

lemma progress_values_append:
  "progress_values (xs @ ys) = progress_values xs @ progress_values ys"
  by (induction xs rule: progress_values.induct) auto

lemma status_lines_append: "status_lines (xs @ ys) = status_lines xs @ status_lines ys"
  by (induction xs rule: status_lines.induct) auto

lemma finished_signals_append:
  "finished_signals (xs @ ys) = finished_signals xs @ finished_signals ys"
  by (induction xs rule: finished_signals.induct) auto

text \<open>
  One file: either it is counted and one percentage is emitted, or the \<open>INSERT\<close> raised
  and only a line is printed; in that case nothing else changes.
\<close>

lemma process_file_cases:
  "(processed (process_file w len f st) = Suc (processed st)
      \<and> emitted (process_file w len f st)
          = emitted st @ [progress_value (progress (Suc (processed st)) len)])
   \<or> (\<exists>h e. get_image_hash w f = Some h \<and> save_error w f = Some e
        \<and> process_file w len f st
            = st\<lparr>emitted := emitted st @ [print (''Fout bij '' @ f @ '': '' @ e)]\<rparr>)"
  by (auto simp: process_file_def count_processed_def save_image_to_db_def
      make_image_data_def Let_def split: option.splits)

lemma process_file_groups:
  "duplicate_groups (store (process_file w len f st)) = duplicate_groups (store st)"
  by (auto simp: process_file_def count_processed_def save_image_to_db_def Let_def
      split: option.splits)

lemma process_file_rows:
  "length (images (store (process_file w len f st))) \<le> Suc (length (images (store st)))"
  by (auto simp: process_file_def count_processed_def save_image_to_db_def Let_def
      le_SucI split: option.splits)

lemma fold_process_file_groups:
  "duplicate_groups (store (fold (process_file w len) fs st)) = duplicate_groups (store st)"
  by (induction fs arbitrary: st) (auto simp: process_file_groups)

lemma fold_process_file_rows:
  "length (images (store (fold (process_file w len) fs st)))
     \<le> length (images (store st)) + length fs"
proof (induction fs arbitrary: st)
  case Nil
  show ?case by simp
next
  case (Cons f fs)
  have "length (images (store (fold (process_file w len) fs (process_file w len f st))))
          \<le> length (images (store (process_file w len f st))) + length fs"
    by (rule Cons.IH)
  also have "\<dots> \<le> Suc (length (images (store st))) + length fs"
    using process_file_rows [of w len f st] by simp
  finally show ?case by simp
qed

text \<open>
  The signals of a run of the loop body over \<open>fs\<close>: no status line, no final signal, and
  the percentages are those of the counts \<open>processed st + 1\<close>, ..., up to the final count.
\<close>

lemma fold_process_file_events:
  "\<exists>evs. emitted (fold (process_file w len) fs st) = emitted st @ evs
     \<and> status_lines evs = [] \<and> finished_signals evs = []
     \<and> progress_values evs
         = map (\<lambda>i. progress i len)
             [Suc (processed st)..<Suc (processed (fold (process_file w len) fs st))]
     \<and> processed st \<le> processed (fold (process_file w len) fs st)
     \<and> processed (fold (process_file w len) fs st) \<le> processed st + length fs"
proof (induction fs arbitrary: st)
  case Nil
  show ?case by simp
next
  case (Cons f fs)
  let ?st1 = "process_file w len f st"
  let ?st2 = "fold (process_file w len) fs ?st1"
  from Cons.IH [of ?st1] obtain evs where
    ev: "emitted ?st2 = emitted ?st1 @ evs"
    and sl: "status_lines evs = []" and fs: "finished_signals evs = []"
    and pv: "progress_values evs
               = map (\<lambda>i. progress i len) [Suc (processed ?st1)..<Suc (processed ?st2)]"
    and lo: "processed ?st1 \<le> processed ?st2"
    and hi: "processed ?st2 \<le> processed ?st1 + length fs"
    by blast
  from process_file_cases [of w len f st] show ?case
  proof (elim disjE conjE exE)
    assume p: "processed ?st1 = Suc (processed st)"
      and e: "emitted ?st1 = emitted st @ [progress_value (progress (Suc (processed st)) len)]"
    have "[Suc (processed st)..<Suc (processed ?st2)]
            = Suc (processed st) # [Suc (processed ?st1)..<Suc (processed ?st2)]"
      using lo p by (simp add: upt_conv_Cons)
    then have "progress_values (progress_value (progress (Suc (processed st)) len) # evs)
            = map (\<lambda>i. progress i len) [Suc (processed st)..<Suc (processed ?st2)]"
      using pv by simp
    with ev sl fs lo hi p e show ?thesis
      by (intro exI [of _ "progress_value (progress (Suc (processed st)) len) # evs"]) simp
  next
    fix h e
    assume s: "?st1 = st\<lparr>emitted := emitted st @ [print (''Fout bij '' @ f @ '': '' @ e)]\<rparr>"
    have p: "processed ?st1 = processed st"
      and em: "emitted ?st1 = emitted st @ [print (''Fout bij '' @ f @ '': '' @ e)]"
      by (simp_all add: s)
    from ev sl fs pv lo hi p em show ?thesis
      by (intro exI [of _ "print (''Fout bij '' @ f @ '': '' @ e) # evs"]) simp
  qed
qed


lemma process_images_stop:
  "k \<le> n \<Longrightarrow> n < k + length fs \<Longrightarrow> should_stop w n \<Longrightarrow>
   \<forall>j. k \<le> j \<and> j < n \<longrightarrow> \<not> should_stop w j \<Longrightarrow>
   process_images w len k fs st = (True, fold (process_file w len) (take (n - k) fs) st)"
proof (induction fs arbitrary: k st)
  case Nil
  then show ?case by simp
next
  case (Cons f fs)
  show ?case
  proof (cases "k = n")
    case True
    with Cons.prems show ?thesis by simp
  next
    case False
    with Cons.prems have lt: "k < n" by simp
    then have ns: "\<not> should_stop w k" using Cons.prems by simp
    have "process_images w len (Suc k) fs (process_file w len f st)
        = (True, fold (process_file w len) (take (n - Suc k) fs) (process_file w len f st))"
      using Cons.prems lt by (intro Cons.IH) auto
    moreover have "take (n - k) (f # fs) = f # take (n - Suc k) fs"
      using lt by (simp add: take_Cons')
    ultimately show ?thesis using ns by simp
  qed
qed

lemma process_images_fold:
  "\<exists>n \<le> length fs. snd (process_images w len k fs st)
      = fold (process_file w len) (take n fs) st"
proof (induction fs arbitrary: k st)
  case Nil
  show ?case by simp
next
  case (Cons f fs)
  show ?case
  proof (cases "should_stop w k")
    case True
    then show ?thesis by (intro exI [of _ 0]) simp
  next
    case False
    from Cons.IH [of "Suc k" "process_file w len f st"] obtain n where
      "n \<le> length fs"
      "snd (process_images w len (Suc k) fs (process_file w len f st))
         = fold (process_file w len) (take n fs) (process_file w len f st)"
      by blast
    with False show ?thesis by (intro exI [of _ "Suc n"]) simp
  qed
qed








section \<open>Cancellation and store failures\<close>



text \<open>
  C3, as the code has it. When the tables could be set up and the flag is first seen
  raised before the file of index \<open>n\<close>, the scan returns there: no \<open>finished_scan\<close> signal
  is emitted at all, the catalog is what the loop body left after the first \<open>n\<close> files
  (at most \<open>n\<close> rows, nothing undone), and there is no duplicate group.
\<close>

theorem cancelled_scan:
  assumes "setup_error w = None" and "n < length (find_image_files w)"
    and "should_stop w n" and "\<forall>j<n. \<not> should_stop w j"
  shows "finished_signals (snd (run w d0)) = []
       \<and> length (images (fst (run w d0))) \<le> n
       \<and> duplicate_groups (fst (run w d0)) = []
       \<and> fst (run w d0)
           = store (fold (process_file w (length (find_image_files w)))
                     (take n (find_image_files w))
                     (initial_state empty_db
                        [progress_text ''Database voorbereiden...'',
                         progress_text ''Bestanden zoeken...'',
                         progress_text (''Verwerken van ''
                           @ show_nat (length (find_image_files w)) @ '' afbeeldingen...'')]))"
proof -
  let ?fs = "find_image_files w"
  let ?evs = "[progress_text ''Database voorbereiden...'',
               progress_text ''Bestanden zoeken...'',
               progress_text (''Verwerken van '' @ show_nat (length ?fs) @ '' afbeeldingen...'')]"
  let ?init = "initial_state empty_db ?evs"
  let ?st = "fold (process_file w (length ?fs)) (take n ?fs) ?init"
  have ne: "?fs \<noteq> []" using assms(2) by auto
  have "process_images w (length ?fs) 0 ?fs ?init = (True, ?st)"
    using process_images_stop [of 0 n ?fs w "length ?fs" ?init] assms by simp
  then have scan: "scan_for_duplicates w d0 = (None, store ?st, emitted ?st)"
    using assms(1) ne by (simp add: scan_for_duplicates_def setup_database_def Let_def)
  then have run: "run w d0 = (store ?st, emitted ?st)"
    by (simp add: run_def)
  from fold_process_file_events [of w "length ?fs" "take n ?fs" ?init]
  obtain evs where "emitted ?st = emitted ?init @ evs" and "finished_signals evs = []"
    by blast
  then have "finished_signals (emitted ?st) = []"
    by (simp add: finished_signals_append initial_state_def)
  moreover have "length (images (store ?st)) \<le> n"
    using fold_process_file_rows [of w "length ?fs" "take n ?fs" ?init] assms(2)
    by (simp add: initial_state_def empty_db_def)
  moreover have "duplicate_groups (store ?st) = []"
    by (simp add: fold_process_file_groups initial_state_def empty_db_def)
  ultimately show ?thesis by (simp add: run)
qed

theorem cancelled_scan_witness:
  "setup_error stopped_world = None \<and> 1 < length (find_image_files stopped_world)
   \<and> should_stop stopped_world 1 \<and> \<not> should_stop stopped_world 0
   \<and> finished_signals (snd (run stopped_world empty_db)) = []
   \<and> length (images (fst (run stopped_world empty_db))) \<le> 1
   \<and> duplicate_groups (fst (run stopped_world empty_db)) = []"
proof -
  have f: "find_image_files stopped_world = [''a.jpg'', ''b.jpg'']"
    by code_simp
  have h: "setup_error stopped_world = None" "should_stop stopped_world 1"
    "\<not> should_stop stopped_world 0"
    by (simp_all add: stopped_world_def pair_world_def quiet_world_def)
  have lt: "1 < length (find_image_files stopped_world)"
    by (simp add: f)
  have nb: "\<forall>j<1. \<not> should_stop stopped_world j"
    using h(3) by simp
  note c = cancelled_scan [OF h(1) lt h(2) nb, of empty_db]
  from c h lt show ?thesis by blast
qed

text \<open>
  C3, as the spec states it, fails: the flag is raised when the loop reaches the second
  file, and the scan ends without any \<open>finished_scan\<close> signal, a cancelled one included.
\<close>

theorem cancelled_scan_signal_counterexample:
  "should_stop stopped_world 1 \<and>
   snd (run stopped_world empty_db)
     = [progress_text ''Database voorbereiden...'', progress_text ''Bestanden zoeken...'',
        progress_text ''Verwerken van 2 afbeeldingen...'', progress_value 40]"
  by code_simp




section \<open>Listing the duplicate groups\<close>









text \<open>
  No statement of the program sets \<open>is_original\<close>: rows are inserted with the default,
  and the grouping loop writes \<open>False\<close>. So a catalog built by a scan has no original.
\<close>

lemma process_file_no_original:
  assumes "list_all (\<lambda>r. \<not> is_original r) (images (store st))"
  shows "list_all (\<lambda>r. \<not> is_original r) (images (store (process_file w len f st)))"
  using assms
  by (auto simp: process_file_def count_processed_def save_image_to_db_def new_row_def
      Let_def list_all_iff split: option.splits)

lemma fold_process_file_no_original:
  "list_all (\<lambda>r. \<not> is_original r) (images (store st)) \<Longrightarrow>
   list_all (\<lambda>r. \<not> is_original r) (images (store (fold (process_file w len) fs st)))"
  by (induction fs arbitrary: st) (auto intro: process_file_no_original)

lemma update_images_no_original:
  "list_all (\<lambda>r. \<not> is_original r) (images d) \<Longrightarrow>
   list_all (\<lambda>r. \<not> is_original r) (images (snd (update_images w d xs g)))"
proof (induction xs arbitrary: d)
  case Nil
  then show ?case by simp
next
  case (Cons x xs)
  show ?case
  proof (cases "update_image_group w d (path x) g False")
    case (Inl e)
    with Cons.prems show ?thesis by simp
  next
    case (Inr d')
    then have "list_all (\<lambda>r. \<not> is_original r) (images d')"
      using Cons.prems
      by (auto simp: update_image_group_def set_group_def list_all_iff split: option.splits)
    then show ?thesis using Inr Cons.IH by simp
  qed
qed

lemma group_buckets_db_Cons:
  "fst (snd (group_buckets w d ((h, imgs) # m) n))
     = (if 1 < length imgs then
          (case create_duplicate_group w d h (sort_images imgs) of
             Inl e \<Rightarrow> d
           | Inr (d1, g) \<Rightarrow>
               (case update_images w d1 (sort_images imgs) g of
                  (Some e, d2) \<Rightarrow> d2
                | (None, d2) \<Rightarrow> fst (snd (group_buckets w d2 m (Suc n)))))
        else fst (snd (group_buckets w d m n)))"
  by (simp split: sum.splits prod.splits option.splits)

lemma group_buckets_no_original:
  "list_all (\<lambda>r. \<not> is_original r) (images d) \<Longrightarrow>
   list_all (\<lambda>r. \<not> is_original r) (images (fst (snd (group_buckets w d m n))))"
proof (induction m arbitrary: d n)
  case Nil
  then show ?case by simp
next
  case (Cons b m)
  obtain h imgs where b: "b = (h, imgs)" by (cases b)
  have u: "list_all (\<lambda>r. \<not> is_original r) (images (snd (update_images w d1 xs g)))"
    if "create_duplicate_group w d h (sort_images imgs) = Inr (d1, g')" for d1 g' xs g
  proof (rule update_images_no_original)
    show "list_all (\<lambda>r. \<not> is_original r) (images d1)"
      using that Cons.prems by (auto simp: create_duplicate_group_def split: option.splits)
  qed
  show ?case
    unfolding b group_buckets_db_Cons
    using Cons.prems Cons.IH u
    by (auto split: sum.splits prod.splits option.splits) (metis snd_conv)+
qed

lemma run_no_original:
  assumes "setup_error w = None"
  shows "list_all (\<lambda>r. \<not> is_original r) (images (fst (run w d0)))"
proof -
  let ?fs = "find_image_files w"
  let ?init = "initial_state empty_db
      [progress_text ''Database voorbereiden...'', progress_text ''Bestanden zoeken...'',
       progress_text (''Verwerken van '' @ show_nat (length ?fs) @ '' afbeeldingen...'')]"
  let ?p = "process_images w (length ?fs) 0 ?fs ?init"
  obtain k where k: "snd ?p = fold (process_file w (length ?fs)) (take k ?fs) ?init"
    using process_images_fold [of ?fs w "length ?fs" 0 ?init] by blast
  have "list_all (\<lambda>r. \<not> is_original r) (images (store ?init))"
    by (simp add: initial_state_def empty_db_def)
  then have st: "list_all (\<lambda>r. \<not> is_original r) (images (store (snd ?p)))"
    unfolding k by (rule fold_process_file_no_original)
  let ?g = "group_buckets w (store (snd ?p)) (hash_to_images (snd ?p)) 0"
  have g: "list_all (\<lambda>r. \<not> is_original r) (images (fst (snd ?g)))"
    using st by (rule group_buckets_no_original)
  show ?thesis
    using assms st g
    by (auto simp: run_def scan_for_duplicates_def setup_database_def Let_def empty_db_def
        split: prod.splits bool.splits option.splits)
qed





section \<open>Grouping by fingerprint\<close>






text \<open>What the grouping loop does to the catalog when no statement raises.\<close>

lemma set_group_twice: "set_group g b (set_group g b r) = set_group g b r"
  by (simp add: set_group_def)

















section \<open>The order of a bucket\<close>

text \<open>
  C2. The first thing the grouping loop does with a bucket of two or more images is to
  sort it: whatever happens afterwards, the bucket it has reached is left sorted in
  \<open>hash_to_images\<close>. When the loop runs to its end, it leaves in \<open>hash_to_images\<close> every
  bucket of two or more images replaced by its sorted version, and the other buckets as
  they were. Every bucket is then in descending order of \<open>(width * height, date_taken or '')\<close>:
  of two images the earlier one has the larger area or, at equal areas, the capture
  time that is not smaller in the lexicographic order of strings, a missing capture
  time counting as the empty string. The sorted bucket is a permutation of the bucket,
  and images with equal keys keep the order they had, so the result is determined by the
  bucket alone.
\<close>

theorem grouping_sorts_buckets:
  assumes "fst (group_buckets w d m n) = None"
  shows "(1 < length imgs \<longrightarrow>
            hd (snd (snd (snd (group_buckets w d' ((h, imgs) # rest) n'))))
              = (h, sort_images imgs))
       \<and> snd (snd (snd (group_buckets w d m n)))
           = map (\<lambda>(h, imgs). (h, if 1 < length imgs then sort_images imgs else imgs)) m
       \<and> list_all (\<lambda>(h, imgs).
             sorted_wrt (\<lambda>a b. width b * height b < width a * height a
                  \<or> width b * height b = width a * height a
                    \<and> snd (image_key b) \<le> snd (image_key a)) imgs)
           (snd (snd (snd (group_buckets w d m n))))
       \<and> mset (sort_images imgs) = mset imgs
       \<and> filter (\<lambda>x. image_key x = c) (sort_images imgs) = filter (\<lambda>x. image_key x = c) imgs
       \<and> snd (image_key (x\<lparr>date_taken := None\<rparr>)) = ''''
       \<and> snd (image_key (x\<lparr>date_taken := Some s\<rparr>)) = s"
proof -
  let ?R = "\<lambda>a b :: image_data. width b * height b < width a * height a
                  \<or> width b * height b = width a * height a
                    \<and> snd (image_key b) \<le> snd (image_key a)"
  let ?f = "\<lambda>(h, imgs). (h, if 1 < length imgs then sort_images imgs else imgs)"
  have res: "snd (snd (snd (group_buckets w d m n))) = map ?f m"
    using assms
  proof (induction m arbitrary: d n)
    case Nil
    show ?case by simp
  next
    case (Cons b m)
    obtain h imgs where b: "b = (h, imgs)" by (cases b)
    show ?case
    proof (cases "1 < length imgs")
      case False
      obtain e d3 n' m' where r: "group_buckets w d m n = (e, d3, n', m')"
        by (cases "group_buckets w d m n")
      have "e = None" using Cons.prems False by (simp add: b r)
      then have "m' = map ?f m" using Cons.IH [of d n] by (simp add: r)
      then show ?thesis using False by (simp add: b r)
    next
      case True
      from Cons.prems True obtain d1 g where
        c: "create_duplicate_group w d h (sort_images imgs) = Inr (d1, g)"
        by (auto simp: b split: sum.splits)
      from Cons.prems True c obtain d2 where
        u: "update_images w d1 (sort_images imgs) g = (None, d2)"
        by (auto simp: b split: prod.splits option.splits)
      obtain e d3 n' m' where r: "group_buckets w d2 m (Suc n) = (e, d3, n', m')"
        by (cases "group_buckets w d2 m (Suc n)")
      have "e = None" using Cons.prems True by (simp add: b c u r)
      then have "m' = map ?f m" using Cons.IH [of d2 "Suc n"] by (simp add: r)
      then show ?thesis using True by (simp add: b c u r)
    qed
  qed
  have srt: "sorted_wrt ?R (sort_images xs)" for xs
  proof -
    have "sorted_wrt (\<lambda>a b. image_key b \<le> image_key a) (sort_images xs)"
      unfolding sort_images_def by (rule sorted_sort_desc)
    then show ?thesis
      by (rule sorted_wrt_mono_rel [rotated]) (auto simp: image_key_def less_eq_prod_def)
  qed
  have one: "sorted_wrt ?R xs" if "\<not> 1 < length xs" for xs
    using that by (cases xs) auto
  have "list_all (\<lambda>(h, imgs). sorted_wrt ?R imgs) (map ?f m)"
    using srt one by (auto simp: list_all_iff)
  moreover have "mset (sort_images imgs) = mset imgs"
    by (simp add: sort_images_def mset_sort_desc)
  moreover have "filter (\<lambda>x. image_key x = c) (sort_images imgs)
      = filter (\<lambda>x. image_key x = c) imgs"
    unfolding sort_images_def by (rule filter_sort_desc)
  moreover have "snd (image_key (x\<lparr>date_taken := None\<rparr>)) = ''''"
    and "snd (image_key (x\<lparr>date_taken := Some s\<rparr>)) = s"
    by (simp_all add: image_key_def)
  moreover have "1 < length imgs \<longrightarrow>
      hd (snd (snd (snd (group_buckets w d' ((h, imgs) # rest) n')))) = (h, sort_images imgs)"
    by (simp split: sum.splits prod.splits option.splits)
  ultimately show ?thesis unfolding res using refl [of "map ?f m"] by blast
qed

theorem grouping_sorts_buckets_witness:
  "fst (group_buckets quiet_world empty_db shelf 0) = None
   \<and> snd (snd (snd (group_buckets quiet_world empty_db shelf 0)))
       = map (\<lambda>(h, imgs). (h, if 1 < length imgs then sort_images imgs else imgs)) shelf
   \<and> 1 < length (snd (hd shelf))
   \<and> hd (snd (snd (snd (group_buckets quiet_world empty_db
          ((fst (hd shelf), snd (hd shelf)) # tl shelf) 0))))
       = (fst (hd shelf), sort_images (snd (hd shelf)))
   \<and> map (\<lambda>(h, imgs). (h, map path imgs))
         (snd (snd (snd (group_buckets quiet_world empty_db shelf 0))))
       = [(''00'', [''late.jpg'', ''early.jpg'', ''undated.jpg'', ''small.jpg'']),
          (''ff'', [''single.jpg''])]"
proof -
  have h: "fst (group_buckets quiet_world empty_db shelf 0) = None"
    by code_simp
  have q: "map (\<lambda>(h, imgs). (h, map path imgs))
         (snd (snd (snd (group_buckets quiet_world empty_db shelf 0))))
       = [(''00'', [''late.jpg'', ''early.jpg'', ''undated.jpg'', ''small.jpg'']),
          (''ff'', [''single.jpg''])]"
    by code_simp
  have l: "1 < length (snd (hd shelf))"
    by (simp add: shelf_def)
  note c = grouping_sorts_buckets [OF h, where imgs = "snd (hd shelf)"
      and h = "fst (hd shelf)" and rest = "tl shelf" and d' = empty_db and n' = 0]
  from c h q l show ?thesis by blast
qed

end
